theory Spec2Isabelle
  imports Main "HOL-Library.Word"
begin

section \<open>Conversion data\<close>

text \<open>
  The embedding follows \<^verbatim>\<open>fastcsv2jsonxx.cpp\<close>. The struct \<^verbatim>\<open>CSV2JSONData\<close> is a
  record; the two streams are part of it: \<open>istream\<close> holds the bytes not yet read and
  \<open>ostream\<close> the sequence of values written with \<^verbatim>\<open><<\<close>, one entry per write, so that
  the text of the output is their concatenation. The token array
  \<^verbatim>\<open>std::array<std::string, MAX_TOKEN_COUNT>\<close> is a store from indices to strings; an
  access at an index outside \<open>0..<MAX_TOKEN_COUNT\<close> is undefined behaviour in C++ and is
  the fault \<open>TokenIndexOutOfRange\<close> here. Every delimiter that \<^verbatim>\<open>ParseArguments\<close> can
  configure is a string of one character, so \<open>delimiter\<close> is a \<open>char\<close>. The counter
  \<^verbatim>\<open>unsigned line_counter\<close> is a 32-bit word; sizes of type \<^verbatim>\<open>std::size_t\<close> never
  exceed the length of a line plus one and are natural numbers. The entries of
  \<open>header\<close> are \<^verbatim>\<open>std::string_view\<close>s of the strings of \<open>s_header\<close> and stand here for
  the strings they view, which no statement of the program changes. The paths of the
  input and output files are left out: the streams are given by their contents.
\<close>

definition MAX_TOKEN_COUNT :: nat where
  "MAX_TOKEN_COUNT = 4096"

datatype fault =
    TokenIndexOutOfRange   \<comment> \<open>\<^verbatim>\<open>data.tokens[i]\<close> with \<open>i \<ge> MAX_TOKEN_COUNT\<close>\<close>
  | PopBackOnEmpty         \<comment> \<open>\<^verbatim>\<open>pop_back ()\<close> on an empty \<^verbatim>\<open>std::string\<close>\<close>
  | HeaderIndexOutOfRange  \<comment> \<open>\<^verbatim>\<open>data.header[i]\<close> with \<open>i \<ge> header.size ()\<close>\<close>

record CData =
  istream :: string
  ostream :: "string list"
  tokens :: "nat \<Rightarrow> string"
  s_header :: "string list"
  header :: "string list"
  replacewithspace :: "char list"
  erasechars :: "char list"
  inputline :: string
  outputline :: string
  delimiter :: char
  validtokencount :: nat
  line_counter :: "32 word"

definition dquote :: char where "dquote = CHR 0x22"
definition comma :: char where "comma = CHR '',''"
definition space :: char where "space = CHR '' ''"
definition newline :: char where "newline = CHR 0x0A"
definition dquote_semi :: string where "dquote_semi = [CHR 0x22, CHR '':'', CHR 0x22]"

section \<open>The string operations used by the tokenizer\<close>

text \<open>\<^verbatim>\<open>std::string_view::find (delimiter, pos)\<close>: the first index at or after \<open>pos\<close>
  that holds the delimiter, \<open>None\<close> for \<^verbatim>\<open>npos\<close>.\<close>

fun find_first :: "char \<Rightarrow> string \<Rightarrow> nat option" where
  "find_first d [] = None"
| "find_first d (c # cs) = (if c = d then Some 0 else map_option Suc (find_first d cs))"

definition find_str :: "string \<Rightarrow> char \<Rightarrow> nat \<Rightarrow> nat option" where
  "find_str s d pos = map_option (\<lambda>i. pos + i) (find_first d (drop pos s))"

text \<open>\<^verbatim>\<open>substr (pos, n)\<close> and \<^verbatim>\<open>substr (pos)\<close>; the tokenizer calls them with
  \<open>pos \<le> size\<close> only, where they do not throw.\<close>

definition substr :: "string \<Rightarrow> nat \<Rightarrow> nat \<Rightarrow> string" where
  "substr s pos n = take n (drop pos s)"

definition substr_from :: "string \<Rightarrow> nat \<Rightarrow> string" where
  "substr_from s pos = drop pos s"

section \<open>Tokenize\<close>

text \<open>The \<^verbatim>\<open>while (end != npos)\<close> loop of \<^verbatim>\<open>Tokenize\<close>. It returns the token store,
  \<open>column\<close> and \<open>start\<close> as they are when the loop is left.\<close>

function Tokenize_loop ::
  "char \<Rightarrow> string \<Rightarrow> (nat \<Rightarrow> string) \<Rightarrow> nat \<Rightarrow> nat \<Rightarrow> nat option
    \<Rightarrow> fault + ((nat \<Rightarrow> string) \<times> nat \<times> nat)" where
  "Tokenize_loop d line toks column start endp =
     (case endp of
        None \<Rightarrow> Inr (toks, column, start)
      | Some e \<Rightarrow>
          if MAX_TOKEN_COUNT \<le> column then Inl TokenIndexOutOfRange
          else Tokenize_loop d line (toks(column := substr line start (e - start)))
                 (Suc column) (e + 1) (find_str line d (e + 1)))"
  by pat_completeness auto
termination
  by (relation "measure (\<lambda>(d, line, toks, column, start, endp). MAX_TOKEN_COUNT - column)") auto

declare Tokenize_loop.simps [simp del]

definition Tokenize :: "CData \<Rightarrow> fault + (nat \<times> CData)" where
  "Tokenize data =
     (let line = inputline data; d = delimiter data in
      case Tokenize_loop d line (tokens data) 0 0 (find_str line d 0) of
        Inl f \<Rightarrow> Inl f
      | Inr (toks, column, start) \<Rightarrow>
          if MAX_TOKEN_COUNT \<le> column then Inl TokenIndexOutOfRange
          else
            let toks = toks(column := substr_from line start);
                column = Suc column
            in if toks (column - 1) = [] then Inl PopBackOnEmpty
               else Inr (column,
                         data\<lparr>tokens := toks(column - 1 := butlast (toks (column - 1)))\<rparr>))"

section \<open>TokenizeLine\<close>

definition TokenizeLine :: "CData \<Rightarrow> fault + (nat \<times> CData)" where
  "TokenizeLine data0 =
     (case Tokenize (data0\<lparr>inputline := inputline data0 @ [space]\<rparr>) of
        Inl f \<Rightarrow> Inl f
      | Inr (ntokens, data) \<Rightarrow>
          if ntokens = 0 \<or> MAX_TOKEN_COUNT < ntokens then Inr (0, data)
          else if line_counter data = 1 then
            let sh = s_header data @ map (tokens data) [0..<ntokens]
            in Inr (ntokens,
                    data\<lparr>s_header := sh, header := header data @ sh,
                         validtokencount := ntokens\<rparr>)
          else Inr (ntokens, data))"

section \<open>GetLine\<close>

text \<open>\<^verbatim>\<open>std::getline\<close> on the bytes left in the stream: it fails when nothing is left,
  otherwise it takes the bytes up to the next newline and discards that newline.
  \<^verbatim>\<open>GetLine\<close> returns the size of the line read, and 0 when the read fails; the line
  buffer is not read again after a failed read.\<close>

definition getline :: "string \<Rightarrow> (string \<times> string) option" where
  "getline s =
     (if s = [] then None
      else Some (takeWhile (\<lambda>c. c \<noteq> newline) s, drop 1 (dropWhile (\<lambda>c. c \<noteq> newline) s)))"

definition GetLine :: "CData \<Rightarrow> nat \<times> CData" where
  "GetLine data0 =
     (let data = data0\<lparr>line_counter := line_counter data0 + 1\<rparr> in
      case getline (istream data) of
        None \<Rightarrow> (0, data)
      | Some (l, rest) \<Rightarrow> (length l, data\<lparr>inputline := l, istream := rest\<rparr>))"

section \<open>GenerateJson\<close>

text \<open>\<^verbatim>\<open>std::ranges::replace (inputline, schar, space)\<close> and
  \<^verbatim>\<open>std::erase (inputline, echar)\<close>.\<close>

definition replace_char :: "string \<Rightarrow> char \<Rightarrow> char \<Rightarrow> string" where
  "replace_char s old new = map (\<lambda>c. if c = old then new else c) s"

definition erase_char :: "string \<Rightarrow> char \<Rightarrow> string" where
  "erase_char s echar = filter (\<lambda>c. c \<noteq> echar) s"

text \<open>The two filter blocks at the head of the loop body.\<close>

definition ReplaceWithSpace :: "CData \<Rightarrow> CData" where
  "ReplaceWithSpace data =
     (if length (replacewithspace data) \<noteq> 0
      then data\<lparr>inputline :=
             foldl (\<lambda>l schar. replace_char l schar space) (inputline data) (replacewithspace data)\<rparr>
      else data)"

definition EraseChars :: "CData \<Rightarrow> CData" where
  "EraseChars data =
     (if length (erasechars data) \<noteq> 0
      then data\<lparr>inputline := foldl erase_char (inputline data) (erasechars data)\<rparr>
      else data)"

text \<open>\<^verbatim>\<open>if (data.line_counter > 2) *data.out << comma << '\n';\<close>\<close>

definition WriteSeparator :: "CData \<Rightarrow> CData" where
  "WriteSeparator data =
     (if 2 < line_counter data then data\<lparr>ostream := ostream data @ [[comma], [newline]]\<rparr>
      else data)"

text \<open>The \<^verbatim>\<open>for\<close> loop that appends one \<^verbatim>\<open>"name":"value"\<close> pair per token.\<close>

function build_record :: "nat \<Rightarrow> nat \<Rightarrow> CData \<Rightarrow> fault + CData" where
  "build_record counter ntokens data =
     (if counter < ntokens then
        if length (header data) \<le> counter then Inl HeaderIndexOutOfRange
        else if MAX_TOKEN_COUNT \<le> counter then Inl TokenIndexOutOfRange
        else build_record (Suc counter) ntokens
               (data\<lparr>outputline :=
                   outputline data @ [dquote] @ header data ! counter @ dquote_semi
                     @ tokens data counter @ [dquote]
                     @ (if 1 < ntokens - counter then [comma] else [])\<rparr>)
      else Inr data)"
  by pat_completeness auto
termination
  by (relation "measure (\<lambda>(counter, ntokens, data). ntokens - counter)") auto

declare build_record.simps [simp del]

text \<open>The block guarded by \<^verbatim>\<open>data.validtokencount == ntokens\<close>.\<close>

definition EmitRecord :: "nat \<Rightarrow> CData \<Rightarrow> fault + CData" where
  "EmitRecord ntokens data =
     (if validtokencount data = ntokens then
        case build_record 0 ntokens (data\<lparr>outputline := ''{''\<rparr>) of
          Inl f \<Rightarrow> Inl f
        | Inr data1 \<Rightarrow>
            let data2 = data1\<lparr>outputline := outputline data1 @ ''}''\<rparr>
            in Inr (if 1 < line_counter data2
                    then data2\<lparr>ostream := ostream data2 @ [outputline data2]\<rparr>
                    else data2)
      else Inr data)"

text \<open>One iteration of the \<^verbatim>\<open>while (GetLine (data))\<close> loop.\<close>

definition LoopBody :: "CData \<Rightarrow> fault + CData" where
  "LoopBody data =
     (case TokenizeLine (WriteSeparator (EraseChars (ReplaceWithSpace data))) of
        Inl f \<Rightarrow> Inl f
      | Inr (ntokens, data1) \<Rightarrow> EmitRecord ntokens data1)"

text \<open>The loop \<^verbatim>\<open>while (GetLine (data))\<close>: it is left when \<^verbatim>\<open>GetLine\<close> returns 0, that
  is at the end of the input or at the first line of length 0.\<close>

function GenerateJson_loop :: "CData \<Rightarrow> fault + CData" where
  "GenerateJson_loop data =
     (case GetLine data of
        (n, data1) \<Rightarrow>
          if n \<noteq> 0 then
            (case LoopBody data1 of
               Inl f \<Rightarrow> Inl f
             | Inr data2 \<Rightarrow> GenerateJson_loop data2)
          else Inr data1)"
  by pat_completeness auto
termination
proof (relation "measure (\<lambda>data. length (istream data))")
  show "wf (measure (\<lambda>data. length (istream data)))"
    by simp
next
  fix data :: CData and n data1 data2
  assume g: "(n, data1) = GetLine data" "n \<noteq> 0" and b: "LoopBody data1 = Inr data2"
  have br: "istream d' = istream d" if "build_record c k d = Inr d'" for c k d d'
    using that
  proof (induction c k d rule: build_record.induct)
    case (1 counter ntokens data)
    then show ?case
      by (subst (asm) (2) build_record.simps) (auto split: if_splits)
  qed
  have tk: "istream d' = istream d" if "TokenizeLine d = Inr (k, d')" for k d d'
    using that
    by (auto simp: TokenizeLine_def Tokenize_def Let_def split: sum.splits if_splits prod.splits)
  have em: "istream d' = istream d" if "EmitRecord k d = Inr d'" for k d d'
    using that br
    by (fastforce simp: EmitRecord_def Let_def split: sum.splits if_splits)
  have pre: "istream (WriteSeparator (EraseChars (ReplaceWithSpace d))) = istream d" for d
    by (simp add: WriteSeparator_def EraseChars_def ReplaceWithSpace_def)
  have "istream data2 = istream data1"
    using b tk em pre [of data1]
    by (auto simp: LoopBody_def split: sum.splits prod.splits)
  moreover have "length (istream data1) < length (istream data)"
  proof -
    from g obtain l rest where gl: "getline (istream data) = Some (l, rest)"
      and d1: "istream data1 = rest"
      by (auto simp: GetLine_def Let_def split: option.splits prod.splits)
    from gl have "istream data \<noteq> []" and "rest = drop 1 (dropWhile (\<lambda>c. c \<noteq> newline) (istream data))"
      by (auto simp: getline_def split: if_splits)
    then have "length rest < length (istream data)"
      using length_dropWhile_le [of "\<lambda>c. c \<noteq> newline" "istream data"]
      by (cases "istream data") auto
    with d1 show ?thesis by simp
  qed
  ultimately show "(data2, data) \<in> measure (\<lambda>data. length (istream data))"
    by simp
qed

declare GenerateJson_loop.simps [simp del]

text \<open>\<^verbatim>\<open>GenerateJson\<close> from the first write to the last. Opening the files named on the
  command line is setup outside the embedding: the input is given by its bytes.\<close>

definition GenerateJson :: "CData \<Rightarrow> fault + CData" where
  "GenerateJson data =
     (case GenerateJson_loop (data\<lparr>ostream := ostream data @ [''['']\<rparr>) of
        Inl f \<Rightarrow> Inl f
      | Inr data1 \<Rightarrow> Inr (data1\<lparr>ostream := ostream data1 @ ['']'']\<rparr>))"

text \<open>The value of \<^verbatim>\<open>CData data;\<close> in \<^verbatim>\<open>main\<close> after \<^verbatim>\<open>ParseArguments\<close> has stored the
  delimiter and the two character vectors, with the bytes of the input in the stream.\<close>

definition initial :: "char \<Rightarrow> char list \<Rightarrow> char list \<Rightarrow> string \<Rightarrow> CData" where
  "initial d rs es input =
     \<lparr>istream = input, ostream = [], tokens = (\<lambda>i. []), s_header = [], header = [],
      replacewithspace = rs, erasechars = es, inputline = [], outputline = [],
      delimiter = d, validtokencount = 0, line_counter = 0\<rparr>"

text \<open>The text a run leaves on the output stream, when it completes.\<close>

definition output_text :: "fault + CData \<Rightarrow> fault + string" where
  "output_text r = (case r of Inl f \<Rightarrow> Inl f | Inr data \<Rightarrow> Inr (concat (ostream data)))"

section \<open>Reference definitions\<close>

text \<open>The definitions of this section are not translations of the source. They say in
  the words of the specification what the code is compared with: the fields of a line
  (\<open>split_on\<close>: the substrings between the occurrences of the delimiter, with the one
  after the last occurrence), the filtered line (\<open>filter_line\<close>: replace, then erase),
  the fields joined again (\<open>join_with\<close>), the JSON object of a record
  (\<open>json_object\<close>), the separator written for a line
  counter, and the token store after a list of fields has been written to it from a
  column on (\<open>store_tokens\<close>).\<close>

fun split_on :: "char \<Rightarrow> string \<Rightarrow> string list" where
  "split_on d [] = [[]]"
| "split_on d (c # cs) =
     (if c = d then [] # split_on d cs
      else (c # hd (split_on d cs)) # tl (split_on d cs))"

fun store_tokens :: "(nat \<Rightarrow> string) \<Rightarrow> nat \<Rightarrow> string list \<Rightarrow> (nat \<Rightarrow> string)" where
  "store_tokens toks column [] = toks"
| "store_tokens toks column (t # ts) = store_tokens (toks(column := t)) (Suc column) ts"

definition filter_line :: "char list \<Rightarrow> char list \<Rightarrow> string \<Rightarrow> string" where
  "filter_line rs es l =
     filter (\<lambda>c. c \<notin> set es) (map (\<lambda>c. if c \<in> set rs then space else c) l)"

fun join_with :: "char \<Rightarrow> string list \<Rightarrow> string" where
  "join_with d [] = []"
| "join_with d [x] = x"
| "join_with d (x # y # ys) = x @ [d] @ join_with d (y # ys)"

definition json_member :: "string \<Rightarrow> string \<Rightarrow> string" where
  "json_member name val = [dquote] @ name @ [dquote] @ '':'' @ [dquote] @ val @ [dquote]"

definition json_object :: "string list \<Rightarrow> string list \<Rightarrow> string" where
  "json_object names vals =
     ''{'' @ join_with comma (map (\<lambda>(name, val). json_member name val) (zip names vals)) @ ''}''"

definition separator :: "32 word \<Rightarrow> string list" where
  "separator counter = (if 2 < counter then [[comma], [newline]] else [])"

section \<open>The tokenizer computes the fields of the line\<close>

lemma find_first_None: "find_first d s = None \<longleftrightarrow> d \<notin> set s"
  by (induction s) auto

lemma split_on_not_Nil [simp]: "split_on d s \<noteq> []"
  by (induction s) auto

lemma split_on_notin: "d \<notin> set s \<Longrightarrow> split_on d s = [s]"
  by (induction s) auto

lemma length_split_on: "length (split_on d s) = Suc (count_list s d)"
  by (induction s) auto

lemma find_first_decomp:
  "find_first d s = Some i \<Longrightarrow>
     i < length s \<and> split_on d s = take i s # split_on d (drop (Suc i) s)
       \<and> count_list s d = Suc (count_list (drop (Suc i) s) d)"
  by (induction s arbitrary: i) (auto split: if_splits)

lemma split_on_snoc:
  "c \<noteq> d \<Longrightarrow> split_on d (s @ [c]) = butlast (split_on d s) @ [last (split_on d s) @ [c]]"
proof (induction s)
  case Nil
  then show ?case by simp
next
  case (Cons a s)
  obtain x xs where X: "split_on d s = x # xs"
    by (cases "split_on d s") auto
  show ?case
    using Cons X by (cases xs) auto
qed

lemma split_on_delim_snoc: "last (split_on d (s @ [d])) = []"
proof (induction s)
  case Nil
  then show ?case by simp
next
  case (Cons a s)
  have "length (split_on d (s @ [d])) = Suc (Suc (count_list s d))"
    by (simp add: length_split_on)
  then obtain x y ys where X: "split_on d (s @ [d]) = x # y # ys"
    by (cases "split_on d (s @ [d])"; cases "tl (split_on d (s @ [d]))") auto
  show ?case
    using Cons X by auto
qed

lemma store_tokens_append:
  "store_tokens toks column (xs @ ys) =
     store_tokens (store_tokens toks column xs) (column + length xs) ys"
  by (induction xs arbitrary: toks column) auto

lemma store_tokens_below: "i < column \<Longrightarrow> store_tokens toks column ts i = toks i"
  by (induction ts arbitrary: toks column) auto

lemma store_tokens_nth:
  "i < length ts \<Longrightarrow> store_tokens toks column ts (column + i) = ts ! i"
proof (induction ts arbitrary: toks column i)
  case Nil
  then show ?case by simp
next
  case (Cons t ts)
  show ?case
  proof (cases i)
    case 0
    then show ?thesis by (simp add: store_tokens_below)
  next
    case (Suc j)
    with Cons.prems have "j < length ts" by simp
    then have "store_tokens (toks(column := t)) (Suc column) ts (Suc column + j) = ts ! j"
      by (rule Cons.IH)
    with Suc show ?thesis by simp
  qed
qed

lemma map_store_tokens: "map (store_tokens toks 0 ts) [0..<length ts] = ts"
  by (rule nth_equalityI) (use store_tokens_nth [of _ ts toks 0] in auto)

lemma Tokenize_loop_fits:
  assumes "start \<le> length line"
    and "column + count_list (drop start line) d \<le> MAX_TOKEN_COUNT"
  shows "\<exists>start'. Tokenize_loop d line toks column start (find_str line d start) =
           Inr (store_tokens toks column (butlast (split_on d (drop start line))),
                column + count_list (drop start line) d, start')
         \<and> start' \<le> length line \<and> drop start' line = last (split_on d (drop start line))"
  using assms
proof (induction "length line - start" arbitrary: start column toks rule: less_induct)
  case less
  let ?r = "drop start line"
  show ?case
  proof (cases "find_first d ?r")
    case None
    then have "d \<notin> set ?r" by (simp add: find_first_None)
    with None less.prems show ?thesis
      by (subst Tokenize_loop.simps) (auto simp: find_str_def split_on_notin)
  next
    case (Some i)
    from find_first_decomp [OF Some]
    have i: "i < length ?r"
      and sp: "split_on d ?r = take i ?r # split_on d (drop (Suc i) ?r)"
      and cnt: "count_list ?r d = Suc (count_list (drop (Suc i) ?r) d)"
      by blast+
    have dr: "drop (Suc i) ?r = drop (start + i + 1) line"
      by (simp add: add.commute)
    have le: "start + i + 1 \<le> length line" using i by simp
    have lt: "length line - (start + i + 1) < length line - start" using i by simp
    have col: "column < MAX_TOKEN_COUNT"
      and fit: "Suc column + count_list (drop (start + i + 1) line) d \<le> MAX_TOKEN_COUNT"
      using less.prems(2) cnt dr by simp_all
    from less.hyps [OF lt le fit, of "toks(column := take i ?r)"]
    obtain start' where
      IH: "Tokenize_loop d line (toks(column := take i ?r)) (Suc column) (start + i + 1)
             (find_str line d (start + i + 1)) =
           Inr (store_tokens (toks(column := take i ?r)) (Suc column)
                  (butlast (split_on d (drop (start + i + 1) line))),
                Suc column + count_list (drop (start + i + 1) line) d, start')"
      and s': "start' \<le> length line"
      and l': "drop start' line = last (split_on d (drop (start + i + 1) line))"
      by blast
    have fs: "find_str line d start = Some (start + i)"
      using Some by (simp add: find_str_def)
    have "Tokenize_loop d line toks column start (find_str line d start) =
            Tokenize_loop d line (toks(column := take i ?r)) (Suc column) (start + i + 1)
             (find_str line d (start + i + 1))"
      using col fs by (subst Tokenize_loop.simps) (simp add: substr_def)
    with IH s' l' show ?thesis
      using sp cnt dr by auto
  qed
qed

lemma Tokenize_loop_overrun:
  assumes "start \<le> length line" and "column \<le> MAX_TOKEN_COUNT"
    and "MAX_TOKEN_COUNT < column + count_list (drop start line) d"
  shows "Tokenize_loop d line toks column start (find_str line d start) = Inl TokenIndexOutOfRange"
  using assms
proof (induction "length line - start" arbitrary: start column toks rule: less_induct)
  case less
  let ?r = "drop start line"
  show ?case
  proof (cases "find_first d ?r")
    case None
    then have "d \<notin> set ?r" by (simp add: find_first_None)
    with less.prems show ?thesis by (simp add: count_notin)
  next
    case (Some i)
    from find_first_decomp [OF Some]
    have i: "i < length ?r"
      and cnt: "count_list ?r d = Suc (count_list (drop (Suc i) ?r) d)"
      by blast+
    have dr: "drop (Suc i) ?r = drop (start + i + 1) line"
      by (simp add: add.commute)
    have le: "start + i + 1 \<le> length line" using i by simp
    have lt: "length line - (start + i + 1) < length line - start" using i by simp
    have fs: "find_str line d start = Some (start + i)"
      using Some by (simp add: find_str_def)
    show ?thesis
    proof (cases "MAX_TOKEN_COUNT \<le> column")
      case True
      with fs show ?thesis by (subst Tokenize_loop.simps) simp
    next
      case False
      then have c1: "Suc column \<le> MAX_TOKEN_COUNT" by simp
      have c2: "MAX_TOKEN_COUNT < Suc column + count_list (drop (start + i + 1) line) d"
        using less.prems(3) cnt dr by simp
      from less.hyps [OF lt le c1 c2, of "toks(column := take i ?r)"] False fs
      show ?thesis by (subst Tokenize_loop.simps) (simp add: substr_def)
    qed
  qed
qed

lemma store_tokens_snoc:
  "store_tokens toks 0 (xs @ [x]) = (store_tokens toks 0 xs)(length xs := x)"
  by (simp add: store_tokens_append)

lemma Tokenize_eq:
  "Tokenize data =
     (if MAX_TOKEN_COUNT \<le> count_list (inputline data) (delimiter data)
      then Inl TokenIndexOutOfRange
      else if last (split_on (delimiter data) (inputline data)) = [] then Inl PopBackOnEmpty
      else Inr (Suc (count_list (inputline data) (delimiter data)),
                data\<lparr>tokens := store_tokens (tokens data) 0
                   (butlast (split_on (delimiter data) (inputline data))
                      @ [butlast (last (split_on (delimiter data) (inputline data)))])\<rparr>))"
proof -
  let ?s = "inputline data" and ?d = "delimiter data"
  let ?c = "count_list ?s ?d" and ?ts = "split_on ?d ?s"
  show ?thesis
  proof (cases "?c \<le> MAX_TOKEN_COUNT")
    case True
    from Tokenize_loop_fits [of 0 ?s 0 ?d "tokens data"] True
    obtain start' where
      L: "Tokenize_loop ?d ?s (tokens data) 0 0 (find_str ?s ?d 0) =
            Inr (store_tokens (tokens data) 0 (butlast ?ts), ?c, start')"
      and l': "drop start' ?s = last ?ts"
      by auto
    show ?thesis
      using L l'
      by (simp add: Tokenize_def Let_def substr_from_def store_tokens_snoc length_split_on)
  next
    case False
    then have "MAX_TOKEN_COUNT < 0 + count_list (drop 0 ?s) ?d" by simp
    from Tokenize_loop_overrun [OF _ _ this, of "tokens data"] False
    show ?thesis
      by (simp add: Tokenize_def Let_def)
  qed
qed

lemma TokenizeLine_eq:
  "TokenizeLine data =
     (if delimiter data = space then
        if MAX_TOKEN_COUNT \<le> Suc (count_list (inputline data) (delimiter data))
        then Inl TokenIndexOutOfRange else Inl PopBackOnEmpty
      else if MAX_TOKEN_COUNT \<le> count_list (inputline data) (delimiter data)
        then Inl TokenIndexOutOfRange
      else if line_counter data = 1 then
        Inr (Suc (count_list (inputline data) (delimiter data)),
             data\<lparr>inputline := inputline data @ [space],
                  tokens := store_tokens (tokens data) 0
                              (split_on (delimiter data) (inputline data)),
                  s_header := s_header data @ split_on (delimiter data) (inputline data),
                  header := header data @ s_header data
                              @ split_on (delimiter data) (inputline data),
                  validtokencount := Suc (count_list (inputline data) (delimiter data))\<rparr>)
      else
        Inr (Suc (count_list (inputline data) (delimiter data)),
             data\<lparr>inputline := inputline data @ [space],
                  tokens := store_tokens (tokens data) 0
                              (split_on (delimiter data) (inputline data))\<rparr>))"
proof (cases "delimiter data = space")
  case True
  then show ?thesis
    by (simp add: TokenizeLine_def Tokenize_eq split_on_delim_snoc)
next
  case False
  let ?ts = "split_on (delimiter data) (inputline data)"
  have sp: "split_on (delimiter data) (inputline data @ [space])
              = butlast ?ts @ [last ?ts @ [space]]"
    using False by (simp add: split_on_snoc)
  have m: "map (store_tokens (tokens data) 0 ?ts)
             [0..<Suc (count_list (inputline data) (delimiter data))] = ?ts"
    using map_store_tokens [of "tokens data" ?ts] by (simp add: length_split_on)
  show ?thesis
    using False m
    by (simp add: TokenizeLine_def Tokenize_eq sp Let_def MAX_TOKEN_COUNT_def del: upt_Suc)
qed

section \<open>The loop body\<close>

lemma foldl_replace_char:
  "foldl (\<lambda>l schar. replace_char l schar space) l rs =
     map (\<lambda>c. if c \<in> set rs then space else c) l"
  by (induction rs arbitrary: l) (auto simp: replace_char_def)

lemma foldl_erase_char: "foldl erase_char l es = filter (\<lambda>c. c \<notin> set es) l"
  by (induction es arbitrary: l) (auto simp: erase_char_def intro: filter_cong)

lemma inputline_filtered:
  "inputline (EraseChars (ReplaceWithSpace data)) =
     filter_line (replacewithspace data) (erasechars data) (inputline data)"
  by (simp add: EraseChars_def ReplaceWithSpace_def filter_line_def foldl_replace_char
        foldl_erase_char)

lemma filtered_frame:
  "istream (EraseChars (ReplaceWithSpace data)) = istream data"
  "ostream (EraseChars (ReplaceWithSpace data)) = ostream data"
  "tokens (EraseChars (ReplaceWithSpace data)) = tokens data"
  "s_header (EraseChars (ReplaceWithSpace data)) = s_header data"
  "header (EraseChars (ReplaceWithSpace data)) = header data"
  "replacewithspace (EraseChars (ReplaceWithSpace data)) = replacewithspace data"
  "erasechars (EraseChars (ReplaceWithSpace data)) = erasechars data"
  "delimiter (EraseChars (ReplaceWithSpace data)) = delimiter data"
  "validtokencount (EraseChars (ReplaceWithSpace data)) = validtokencount data"
  "line_counter (EraseChars (ReplaceWithSpace data)) = line_counter data"
  by (simp_all add: EraseChars_def ReplaceWithSpace_def)

lemma WriteSeparator_frame:
  "istream (WriteSeparator data) = istream data"
  "ostream (WriteSeparator data) = ostream data @ separator (line_counter data)"
  "tokens (WriteSeparator data) = tokens data"
  "s_header (WriteSeparator data) = s_header data"
  "header (WriteSeparator data) = header data"
  "replacewithspace (WriteSeparator data) = replacewithspace data"
  "erasechars (WriteSeparator data) = erasechars data"
  "inputline (WriteSeparator data) = inputline data"
  "delimiter (WriteSeparator data) = delimiter data"
  "validtokencount (WriteSeparator data) = validtokencount data"
  "line_counter (WriteSeparator data) = line_counter data"
  by (simp_all add: WriteSeparator_def separator_def)


lemma join_with_Cons:
  "join_with d (x # xs) = x @ (if xs = [] then [] else [d] @ join_with d xs)"
  by (cases xs) auto

lemma build_record_eq:
  assumes "ntokens \<le> length (header data)" and "ntokens \<le> MAX_TOKEN_COUNT"
  shows "build_record counter ntokens data =
           Inr (data\<lparr>outputline := outputline data
                  @ join_with comma (map (\<lambda>i. json_member (header data ! i) (tokens data i))
                                   [counter..<ntokens])\<rparr>)"
  using assms
proof (induction counter ntokens data rule: build_record.induct)
  case (1 counter ntokens data)
  show ?case
  proof (cases "counter < ntokens")
    case False
    then show ?thesis by (subst build_record.simps) simp
  next
    case True
    let ?data1 = "data\<lparr>outputline :=
                   outputline data @ [dquote] @ header data ! counter @ dquote_semi
                     @ tokens data counter @ [dquote]
                     @ (if 1 < ntokens - counter then [comma] else [])\<rparr>"
    have a: "\<not> length (header data) \<le> counter" "\<not> MAX_TOKEN_COUNT \<le> counter"
      using True "1.prems" by simp_all
    have IH: "build_record (Suc counter) ntokens ?data1 =
           Inr (?data1\<lparr>outputline := outputline ?data1
                  @ join_with comma (map (\<lambda>i. json_member (header ?data1 ! i) (tokens ?data1 i))
                                   [Suc counter..<ntokens])\<rparr>)"
      using "1.IH" [OF True a] "1.prems" by simp
    have e: "[Suc counter..<ntokens] = [] \<longleftrightarrow> \<not> 1 < ntokens - counter"
      by auto
    have u: "[counter..<ntokens] = counter # [Suc counter..<ntokens]"
      using True by (simp add: upt_conv_Cons)
    have "build_record counter ntokens data = build_record (Suc counter) ntokens ?data1"
      using True a by (subst build_record.simps) simp
    also note IH
    finally show ?thesis
      using e by (simp add: u join_with_Cons json_member_def dquote_semi_def dquote_def)
  qed
qed

lemma build_record_frame:
  "build_record counter ntokens data = Inr data' \<Longrightarrow>
     \<exists>x. data' = data\<lparr>outputline := outputline data @ x\<rparr>"
proof (induction counter ntokens data rule: build_record.induct)
  case (1 counter ntokens data)
  show ?case
  proof (cases "counter < ntokens")
    case False
    with "1.prems" have "data' = data"
      by (subst (asm) build_record.simps) simp
    then have "data' = data\<lparr>outputline := outputline data @ []\<rparr>"
      by simp
    then show ?thesis ..
  next
    case True
    let ?data1 = "data\<lparr>outputline :=
                   outputline data @ [dquote] @ header data ! counter @ dquote_semi
                     @ tokens data counter @ [dquote]
                     @ (if 1 < ntokens - counter then [comma] else [])\<rparr>"
    from True "1.prems" have a: "\<not> length (header data) \<le> counter"
      "\<not> MAX_TOKEN_COUNT \<le> counter"
      and b: "build_record (Suc counter) ntokens ?data1 = Inr data'"
      by (subst (asm) build_record.simps, simp split: if_splits)+
    from "1.IH" [OF True a b] obtain x where
      "data' = ?data1\<lparr>outputline := outputline ?data1 @ x\<rparr>"
      by blast
    then have "data' = data\<lparr>outputline := outputline data
                 @ ([dquote] @ header data ! counter @ dquote_semi @ tokens data counter
                    @ [dquote] @ (if 1 < ntokens - counter then [comma] else []) @ x)\<rparr>"
      by simp
    then show ?thesis ..
  qed
qed

lemma map_members_zip:
  assumes "n \<le> length hdr"
  shows "map (\<lambda>i. json_member (hdr ! i) (toks i)) [0..<n] =
         map (\<lambda>(name, val). json_member name val) (zip (take n hdr) (map toks [0..<n]))"
  using assms by (intro nth_equalityI) auto

lemma EmitRecord_eq:
  assumes "ntokens \<le> MAX_TOKEN_COUNT"
    and "validtokencount data = ntokens \<Longrightarrow> ntokens \<le> length (header data)"
  shows "EmitRecord ntokens data =
     Inr (if validtokencount data = ntokens then
            if 1 < line_counter data then
              data\<lparr>outputline :=
                     json_object (take ntokens (header data)) (map (tokens data) [0..<ntokens]),
                   ostream := ostream data
                     @ [json_object (take ntokens (header data))
                          (map (tokens data) [0..<ntokens])]\<rparr>
            else
              data\<lparr>outputline :=
                     json_object (take ntokens (header data)) (map (tokens data) [0..<ntokens])\<rparr>
          else data)"
proof (cases "validtokencount data = ntokens")
  case False
  then show ?thesis by (simp add: EmitRecord_def)
next
  case True
  then have h: "ntokens \<le> length (header (data\<lparr>outputline := ''{''\<rparr>))"
    using assms(2) by simp
  show ?thesis
    using True build_record_eq [OF h assms(1), of 0] map_members_zip [OF assms(2) [OF True]]
    by (simp add: EmitRecord_def Let_def json_object_def)
qed

lemma LoopBody_defined:
  assumes d: "delimiter data \<noteq> space"
    and c: "count_list (filter_line (replacewithspace data) (erasechars data) (inputline data))
              (delimiter data) < MAX_TOKEN_COUNT"
    and v: "validtokencount data
              = length (split_on (delimiter data)
                  (filter_line (replacewithspace data) (erasechars data) (inputline data)))
            \<Longrightarrow> line_counter data \<noteq> 1 \<Longrightarrow> validtokencount data \<le> length (header data)"
  shows "\<exists>data'. LoopBody data = Inr data'
     \<and> ostream data' = ostream data @ separator (line_counter data)
          @ (if 1 < line_counter data
                \<and> validtokencount data
                    = length (split_on (delimiter data)
                        (filter_line (replacewithspace data) (erasechars data) (inputline data)))
             then [json_object (take (validtokencount data) (header data))
                     (split_on (delimiter data)
                        (filter_line (replacewithspace data) (erasechars data) (inputline data)))]
             else [])
     \<and> istream data' = istream data \<and> line_counter data' = line_counter data
     \<and> delimiter data' = delimiter data \<and> replacewithspace data' = replacewithspace data
     \<and> erasechars data' = erasechars data
     \<and> (if line_counter data = 1 then
          s_header data' = s_header data @ split_on (delimiter data)
              (filter_line (replacewithspace data) (erasechars data) (inputline data))
          \<and> header data' = header data @ s_header data'
          \<and> validtokencount data' = length (split_on (delimiter data)
              (filter_line (replacewithspace data) (erasechars data) (inputline data)))
        else s_header data' = s_header data \<and> header data' = header data
          \<and> validtokencount data' = validtokencount data)"
proof -
  let ?X = "WriteSeparator (EraseChars (ReplaceWithSpace data))"
  let ?fl = "filter_line (replacewithspace data) (erasechars data) (inputline data)"
  let ?ts = "split_on (delimiter data) ?fl"
  let ?n = "Suc (count_list ?fl (delimiter data))"
  have X: "inputline ?X = ?fl" "delimiter ?X = delimiter data"
    "line_counter ?X = line_counter data" "tokens ?X = tokens data"
    "s_header ?X = s_header data" "header ?X = header data"
    "validtokencount ?X = validtokencount data"
    "ostream ?X = ostream data @ separator (line_counter data)"
    "istream ?X = istream data" "replacewithspace ?X = replacewithspace data"
    "erasechars ?X = erasechars data"
    by (simp_all add: WriteSeparator_frame filtered_frame inputline_filtered)
  have n: "?n \<le> MAX_TOKEN_COUNT" "length ?ts = ?n"
    using c by (simp_all add: length_split_on)
  have m: "map (store_tokens (tokens data) 0 ?ts) [0..<?n] = ?ts"
    using map_store_tokens [of "tokens data" ?ts] n(2) by simp
  show ?thesis
  proof (cases "line_counter data = 1")
    case True
    let ?d1 = "?X\<lparr>inputline := ?fl @ [space],
                  tokens := store_tokens (tokens data) 0 ?ts,
                  s_header := s_header data @ ?ts,
                  header := header data @ s_header data @ ?ts,
                  validtokencount := ?n\<rparr>"
    have T: "TokenizeLine ?X = Inr (?n, ?d1)"
      using d c True by (simp add: TokenizeLine_eq X)
    have "validtokencount ?d1 = ?n \<Longrightarrow> ?n \<le> length (header ?d1)"
      using n(2) by simp
    from EmitRecord_eq [OF n(1) this] True T
    show ?thesis
      by (simp add: LoopBody_def X n(2))
  next
    case False
    let ?d1 = "?X\<lparr>inputline := ?fl @ [space],
                  tokens := store_tokens (tokens data) 0 ?ts\<rparr>"
    have T: "TokenizeLine ?X = Inr (?n, ?d1)"
      using d c False by (simp add: TokenizeLine_eq X)
    have "validtokencount ?d1 = ?n \<Longrightarrow> ?n \<le> length (header ?d1)"
      using v False n(2) by (simp add: X)
    from EmitRecord_eq [OF n(1) this] False T m
    show ?thesis
      by (auto simp: LoopBody_def X n(2) simp del: upt_Suc)
  qed
qed

section \<open>The whole run\<close>








section \<open>Facts about the reference definitions\<close>

lemma count_list_replicate: "count_list (replicate n x) x = n"
  by (induction n) auto

lemma split_on_replicate: "split_on d (replicate n d) = replicate (Suc n) []"
  by (induction n) auto

lemma split_on_no_delim: "t \<in> set (split_on d s) \<Longrightarrow> d \<notin> set t"
proof (induction s arbitrary: t)
  case Nil
  then show ?case by simp
next
  case (Cons c s)
  obtain x xs where X: "split_on d s = x # xs"
    by (cases "split_on d s") auto
  with Cons show ?case
    by (auto split: if_splits)
qed

lemma join_with_split_on: "join_with d (split_on d s) = s"
proof (induction s)
  case Nil
  then show ?case by simp
next
  case (Cons c s)
  obtain x xs where X: "split_on d s = x # xs"
    by (cases "split_on d s") auto
  with Cons show ?case
    by (cases xs) auto
qed


lemma TokenizeLine_space_delimiter:
  assumes "delimiter data = space"
    and "Suc (count_list (inputline data) space) < MAX_TOKEN_COUNT"
  shows "TokenizeLine data = Inl PopBackOnEmpty"
  using assms by (simp add: TokenizeLine_eq)

lemma TokenizeLine_overrun:
  assumes "MAX_TOKEN_COUNT \<le> count_list (inputline data) (delimiter data)"
  shows "TokenizeLine data = Inl TokenIndexOutOfRange"
  using assms by (auto simp: TokenizeLine_eq)

section \<open>Faults, frames and completion of the run\<close>

lemma LoopBody_overrun:
  assumes "MAX_TOKEN_COUNT \<le> count_list
             (filter_line (replacewithspace data) (erasechars data) (inputline data))
             (delimiter data)"
  shows "LoopBody data = Inl TokenIndexOutOfRange"
proof -
  let ?X = "WriteSeparator (EraseChars (ReplaceWithSpace data))"
  have "MAX_TOKEN_COUNT \<le> count_list (inputline ?X) (delimiter ?X)"
    using assms by (simp add: WriteSeparator_frame filtered_frame inputline_filtered)
  then have "TokenizeLine ?X = Inl TokenIndexOutOfRange"
    by (rule TokenizeLine_overrun)
  then show ?thesis by (simp add: LoopBody_def)
qed

lemma EmitRecord_frame:
  assumes "EmitRecord ntokens data = Inr data'"
  shows "\<exists>ol os. data' = data\<lparr>ostream := os, outputline := ol\<rparr>"
proof (cases "validtokencount data = ntokens")
  case False
  with assms have "data' = data\<lparr>ostream := ostream data, outputline := outputline data\<rparr>"
    by (simp add: EmitRecord_def)
  then show ?thesis by blast
next
  case True
  with assms obtain data1 where
    b: "build_record 0 ntokens (data\<lparr>outputline := ''{''\<rparr>) = Inr data1"
    and r: "data' = (if 1 < line_counter data1
               then data1\<lparr>outputline := outputline data1 @ ''}'',
                          ostream := ostream data1 @ [outputline data1 @ ''}'']\<rparr>
               else data1\<lparr>outputline := outputline data1 @ ''}''\<rparr>)"
    by (auto simp: EmitRecord_def Let_def split: sum.splits if_splits)
  from build_record_frame [OF b] obtain x where
    d1: "data1 = data\<lparr>outputline := ''{'' @ x\<rparr>"
    by auto
  show ?thesis
  proof (cases "1 < line_counter data1")
    case True
    with r d1 have "data' = data\<lparr>ostream := ostream data @ [''{'' @ x @ ''}''],
                               outputline := ''{'' @ x @ ''}''\<rparr>"
      by simp
    then show ?thesis by blast
  next
    case False
    with r d1 have "data' = data\<lparr>ostream := ostream data, outputline := ''{'' @ x @ ''}''\<rparr>"
      by simp
    then show ?thesis by blast
  qed
qed

lemma LoopBody_header_frame:
  assumes "LoopBody data = Inr data'" and "line_counter data \<noteq> 1"
  shows "header data' = header data \<and> s_header data' = s_header data
           \<and> validtokencount data' = validtokencount data"
proof -
  let ?X = "WriteSeparator (EraseChars (ReplaceWithSpace data))"
  from assms(1) obtain ntokens data1 where
    t: "TokenizeLine ?X = Inr (ntokens, data1)" and e: "EmitRecord ntokens data1 = Inr data'"
    by (auto simp: LoopBody_def split: sum.splits)
  have "line_counter ?X \<noteq> 1"
    using assms(2) by (simp add: WriteSeparator_frame filtered_frame)
  with t have "header data1 = header ?X \<and> s_header data1 = s_header ?X
      \<and> validtokencount data1 = validtokencount ?X"
    by (auto simp: TokenizeLine_eq split: if_splits)
  moreover from EmitRecord_frame [OF e] obtain ol os where
    "data' = data1\<lparr>ostream := os, outputline := ol\<rparr>" by blast
  ultimately show ?thesis
    by (simp add: WriteSeparator_frame filtered_frame)
qed




lemma mismatched_row_dropped:
  assumes "delimiter data \<noteq> space"
    and "count_list (filter_line (replacewithspace data) (erasechars data) (inputline data))
           (delimiter data) < MAX_TOKEN_COUNT"
    and "line_counter data \<noteq> 1"
    and "validtokencount data \<noteq> length (split_on (delimiter data)
           (filter_line (replacewithspace data) (erasechars data) (inputline data)))"
  shows "\<exists>data'. LoopBody data = Inr data'
           \<and> ostream data' = ostream data @ separator (line_counter data)
           \<and> istream data' = istream data \<and> header data' = header data
           \<and> validtokencount data' = validtokencount data"
proof -
  have v: "validtokencount data = length (split_on (delimiter data)
             (filter_line (replacewithspace data) (erasechars data) (inputline data)))
           \<Longrightarrow> line_counter data \<noteq> 1 \<Longrightarrow> validtokencount data \<le> length (header data)"
    using assms(4) by simp
  from LoopBody_defined [OF assms(1,2) v] obtain data' where
    b: "LoopBody data = Inr data'"
    and o: "ostream data' = ostream data @ separator (line_counter data)
          @ (if 1 < line_counter data
                \<and> validtokencount data
                    = length (split_on (delimiter data)
                        (filter_line (replacewithspace data) (erasechars data) (inputline data)))
             then [json_object (take (validtokencount data) (header data))
                     (split_on (delimiter data)
                        (filter_line (replacewithspace data) (erasechars data) (inputline data)))]
             else [])"
    and i: "istream data' = istream data"
    by blast
  from o assms(4) have "ostream data' = ostream data @ separator (line_counter data)"
    by simp
  with b i LoopBody_header_frame [OF b assms(3)] show ?thesis
    by (intro exI [of _ data']) simp
qed



section \<open>The claims\<close>

subsection \<open>C1: the output for the three-line example\<close>

text \<open>
  C1 (as stated): for the input of the three lines \<^verbatim>\<open>id,name\<close>, \<^verbatim>\<open>1,alpha\<close>,
  \<^verbatim>\<open>2,beta\<close>, with the comma as delimiter and no character to replace or erase, the
  output is the two objects in brackets with a single comma between them and no other
  character. The run writes a newline after that comma
  (\<^verbatim>\<open>*data.out << comma << '\n'\<close>), so the text claimed is not the output.
\<close>

theorem GenerateJson_example_output_counterexample:
  \<open>output_text (GenerateJson (initial CHR '','' [] []
      (''id,name'' @ [newline] @ ''1,alpha'' @ [newline] @ ''2,beta'' @ [newline])))
    \<noteq> Inr ''[{"id":"1","name":"alpha"},{"id":"2","name":"beta"}]''\<close>
  by code_simp

text \<open>
  C1 (amended): for that input, whether or not its last line ends with a newline, the
  output is exactly the two objects in brackets, separated by a comma followed by one
  newline character; there is no trailing comma and nothing else is written.
\<close>

theorem GenerateJson_example_output:
  \<open>output_text (GenerateJson (initial CHR '','' [] []
      (''id,name'' @ [newline] @ ''1,alpha'' @ [newline] @ ''2,beta'' @ [newline])))
    = Inr (''[{"id":"1","name":"alpha"},'' @ [newline] @ ''{"id":"2","name":"beta"}]'')
   \<and> output_text (GenerateJson (initial CHR '','' [] []
      (''id,name'' @ [newline] @ ''1,alpha'' @ [newline] @ ''2,beta'')))
    = Inr (''[{"id":"1","name":"alpha"},'' @ [newline] @ ''{"id":"2","name":"beta"}]'')\<close>
  by code_simp

subsection \<open>C2: writes into the token buffer\<close>

text \<open>
  C2: the claim is that no write of the tokenizer goes past the \<open>MAX_TOKEN_COUNT\<close> slots
  of the token buffer, and that a line with more fields than slots is reported with a
  token count of zero. \<^verbatim>\<open>Tokenize\<close> writes \<^verbatim>\<open>data.tokens[column++]\<close> without a
  check; the check \<^verbatim>\<open>ntokens > MAX_TOKEN_COUNT\<close> of \<^verbatim>\<open>TokenizeLine\<close> comes after
  the writes. The theorem evaluates \<^verbatim>\<open>TokenizeLine\<close> on a data row of 4096 commas
  (4097 fields), and the whole run on the header \<^verbatim>\<open>a,b\<close> followed by that row: the
  write of the last field is at index 4096.
\<close>

theorem GenerateJson_writes_past_token_buffer:
  "TokenizeLine ((initial CHR '','' [] [] [])\<lparr>inputline := replicate 4096 CHR '','',
       line_counter := 2, validtokencount := 2, s_header := [''a'', ''b''],
       header := [''a'', ''b'']\<rparr>) = Inl TokenIndexOutOfRange
   \<and> output_text (GenerateJson (initial CHR '','' [] []
         (''a,b'' @ [newline] @ replicate 4096 CHR '',''))) = Inl TokenIndexOutOfRange"
proof
  show "TokenizeLine ((initial CHR '','' [] [] [])\<lparr>inputline := replicate 4096 CHR '','',
       line_counter := 2, validtokencount := 2, s_header := [''a'', ''b''],
       header := [''a'', ''b'']\<rparr>) = Inl TokenIndexOutOfRange"
    by (rule TokenizeLine_overrun)
       (simp add: initial_def count_list_replicate MAX_TOKEN_COUNT_def)
next
  let ?row = "replicate 4096 CHR '',''"
  let ?D0 = "(initial CHR '','' [] [] (''a,b'' @ [newline] @ ?row))
               \<lparr>ostream := ostream (initial CHR '','' [] [] (''a,b'' @ [newline] @ ?row))
                    @ [''['']\<rparr>"
  let ?D1 = "?D0\<lparr>line_counter := 1, inputline := ''a,b'', istream := ?row\<rparr>"
  have g0: "GetLine ?D0 = (3, ?D1)"
    by (simp add: GetLine_def getline_def initial_def newline_def)
  have "\<exists>data'. LoopBody ?D1 = Inr data' \<and> istream data' = ?row \<and> line_counter data' = 1
          \<and> delimiter data' = CHR '','' \<and> replacewithspace data' = []
          \<and> erasechars data' = []"
    using LoopBody_defined [of ?D1]
    by (simp add: initial_def filter_line_def space_def MAX_TOKEN_COUNT_def) blast
  then obtain D2 where b1: "LoopBody ?D1 = Inr D2" and i2: "istream D2 = ?row"
    and c2: "line_counter D2 = 1" and d2: "delimiter D2 = CHR '',''"
    and r2: "replacewithspace D2 = []" and e2: "erasechars D2 = []"
    by blast
  let ?D3 = "D2\<lparr>line_counter := 2, inputline := ?row, istream := []\<rparr>"
  have g2: "GetLine D2 = (4096, ?D3)"
    using i2 c2 by (simp add: GetLine_def getline_def newline_def)
  have b3: "LoopBody ?D3 = Inl TokenIndexOutOfRange"
    by (rule LoopBody_overrun)
       (simp add: d2 r2 e2 filter_line_def count_list_replicate MAX_TOKEN_COUNT_def)
  have "GenerateJson_loop D2 = Inl TokenIndexOutOfRange"
    using g2 b3 by (subst GenerateJson_loop.simps) simp
  then have "GenerateJson_loop ?D0 = Inl TokenIndexOutOfRange"
    using g0 b1 by (subst GenerateJson_loop.simps) simp
  then show "output_text (GenerateJson (initial CHR '','' [] []
         (''a,b'' @ [newline] @ ?row))) = Inl TokenIndexOutOfRange"
    by (simp add: GenerateJson_def output_text_def)
qed

subsection \<open>C3: the first line as header\<close>




subsection \<open>C4: the separator\<close>



subsection \<open>C5: rows whose field count differs from the header's\<close>

text \<open>
  C5: the claim is that, on every input, a data row whose field count differs from the
  header's produces no object and no error, and that processing continues with the
  next line. A row that is tokenized is dropped in this way (lemma
  \<open>mismatched_row_dropped\<close>), but an empty line is never tokenized: \<^verbatim>\<open>GetLine\<close>
  returns the size of the line, which is 0, and \<^verbatim>\<open>while (GetLine (data))\<close> takes that
  for the end of the input, against the comments \<^verbatim>\<open>0 on eof or error\<close> and
  \<^verbatim>\<open>until eof or error\<close>. The theorem evaluates the run on the header \<^verbatim>\<open>a,b\<close>, an
  empty line and the row \<^verbatim>\<open>1,2\<close>: the row after the empty line is never read. Without
  the empty line its object is written.
\<close>

theorem empty_line_ends_conversion:
  \<open>output_text (GenerateJson (initial CHR '','' [] []
      (''a,b'' @ [newline] @ [newline] @ ''1,2'' @ [newline]))) = Inr ''[]''
   \<and> output_text (GenerateJson (initial CHR '','' [] []
      (''a,b'' @ [newline] @ ''1,2'' @ [newline]))) = Inr ''[{"a":"1","b":"2"}]''\<close>
  by code_simp

subsection \<open>C6: the object of a valid row\<close>



subsection \<open>C7: the brackets of the array\<close>



subsection \<open>C8: the fields that the tokenizer produces\<close>

text \<open>
  C8 (as stated): for every line the tokenizer yields the fields between the
  delimiters, and a line of \<open>L\<close> delimiters yields \<open>L + 1\<close> empty fields. This fails
  for a line of 4096 commas, which has more fields than the buffer has slots, and for
  every line when the delimiter is the space, which is also the sentinel.
\<close>

theorem TokenizeLine_fields_counterexample:
  "TokenizeLine ((initial CHR '','' [] [] [])\<lparr>inputline := replicate 4096 CHR '',''\<rparr>)
     = Inl TokenIndexOutOfRange
   \<and> TokenizeLine ((initial CHR '' '' [] [] [])\<lparr>inputline := ''a b''\<rparr>)
     = Inl PopBackOnEmpty"
proof
  show "TokenizeLine ((initial CHR '','' [] [] [])\<lparr>inputline := replicate 4096 CHR '',''\<rparr>)
     = Inl TokenIndexOutOfRange"
    by (rule TokenizeLine_overrun)
       (simp add: initial_def count_list_replicate MAX_TOKEN_COUNT_def)
  show "TokenizeLine ((initial CHR '' '' [] [] [])\<lparr>inputline := ''a b''\<rparr>)
     = Inl PopBackOnEmpty"
    by (rule TokenizeLine_space_delimiter)
       (simp_all add: initial_def space_def MAX_TOKEN_COUNT_def)
qed

text \<open>
  C8 (amended): for every delimiter other than the space and every line with at most
  4095 occurrences of the delimiter, \<^verbatim>\<open>TokenizeLine\<close> returns the number of
  occurrences plus one and leaves in the first slots of the token buffer the fields of
  the line: they hold no delimiter and, joined by the delimiter, give back the line, so
  that no character is lost. A delimiter at the end of the line gives an empty last
  field, the empty line gives one empty field, and a line of \<open>L \<le> 4095\<close> delimiters
  gives \<open>L + 1\<close> empty fields.
\<close>

theorem TokenizeLine_fields:
  assumes "delimiter data \<noteq> space"
    and "count_list (inputline data) (delimiter data) < MAX_TOKEN_COUNT"
  shows "\<exists>data'.
     TokenizeLine data = Inr (Suc (count_list (inputline data) (delimiter data)), data')
     \<and> map (tokens data') [0..<Suc (count_list (inputline data) (delimiter data))]
         = split_on (delimiter data) (inputline data)
     \<and> join_with (delimiter data) (split_on (delimiter data) (inputline data))
         = inputline data
     \<and> (\<forall>t\<in>set (split_on (delimiter data) (inputline data)). delimiter data \<notin> set t)
     \<and> (inputline data = [] \<longrightarrow> tokens data' 0 = [])
     \<and> (\<forall>L. inputline data = replicate L (delimiter data)
            \<longrightarrow> map (tokens data') [0..<Suc L] = replicate (Suc L) [])
     \<and> (\<forall>s. inputline data = s @ [delimiter data]
            \<longrightarrow> tokens data' (count_list (inputline data) (delimiter data)) = [])"
proof -
  let ?d = "delimiter data" and ?l = "inputline data"
  let ?n = "Suc (count_list ?l ?d)"
  let ?ts = "split_on ?d ?l"
  let ?toks = "store_tokens (tokens data) 0 ?ts"
  from assms obtain data' where
    t: "TokenizeLine data = Inr (?n, data')" and k: "tokens data' = ?toks"
    by (cases "line_counter data = 1") (simp_all add: TokenizeLine_eq)
  have len: "length ?ts = ?n"
    by (simp add: length_split_on)
  have m: "map (tokens data') [0..<?n] = ?ts"
    using map_store_tokens [of "tokens data" ?ts] k len by simp
  have nth: "tokens data' i = ?ts ! i" if "i < ?n" for i
  proof -
    from that have "map (tokens data') [0..<?n] ! i = tokens data' i"
      by (simp del: upt_Suc)
    with m show ?thesis by simp
  qed
  have e: "tokens data' 0 = []" if "?l = []"
    using nth [of 0] that by simp
  have r: "map (tokens data') [0..<Suc L] = replicate (Suc L) []" if "?l = replicate L ?d" for L
    using m that by (simp add: count_list_replicate split_on_replicate del: upt_Suc)
  have f: "tokens data' (count_list ?l ?d) = []" if "?l = s @ [?d]" for s
  proof -
    have "tokens data' (count_list ?l ?d) = ?ts ! (length ?ts - 1)"
      using nth [of "count_list ?l ?d"] len by simp
    also have "\<dots> = last ?ts"
      by (simp add: last_conv_nth)
    also have "\<dots> = []"
      using that split_on_delim_snoc [of ?d s] by simp
    finally show ?thesis .
  qed
  show ?thesis
    using t m e r f
    by (intro exI [of _ data'])
       (simp add: join_with_split_on split_on_no_delim del: upt_Suc replicate_Suc)
qed

theorem TokenizeLine_fields_witness:
  "\<exists>data'.
     TokenizeLine ((initial CHR '','' [] [] [])\<lparr>inputline := ''1,,alpha,''\<rparr>) = Inr (4, data')
     \<and> map (tokens data') [0..<4] = [''1'', '''', ''alpha'', '''']"
proof -
  let ?D = "(initial CHR '','' [] [] [])\<lparr>inputline := ''1,,alpha,''\<rparr>"
  have h: "delimiter ?D \<noteq> space"
    "count_list (inputline ?D) (delimiter ?D) < MAX_TOKEN_COUNT"
    by (simp_all add: initial_def space_def MAX_TOKEN_COUNT_def)
  have c: "Suc (count_list (inputline ?D) (delimiter ?D)) = 4"
    by (simp add: initial_def)
  have s: "split_on (delimiter ?D) (inputline ?D) = [''1'', '''', ''alpha'', '''']"
    by (simp add: initial_def)
  from TokenizeLine_fields [OF h] obtain data' where
    "TokenizeLine ?D = Inr (Suc (count_list (inputline ?D) (delimiter ?D)), data')"
    "map (tokens data') [0..<Suc (count_list (inputline ?D) (delimiter ?D))]
         = split_on (delimiter ?D) (inputline ?D)"
    by blast
  then have "TokenizeLine ?D = Inr (4, data')"
    "map (tokens data') [0..<4] = [''1'', [], ''alpha'', []]"
    unfolding c s by simp_all
  then show ?thesis
    by (intro exI [of _ data'] conjI)
qed

subsection \<open>C9: the character filter\<close>

text \<open>
  C9: the line that is tokenized is the line read, in which first every character of the
  replace-set has been replaced by a space and from which then every character of the
  erase-set has been removed; the filter runs before \<^verbatim>\<open>TokenizeLine\<close>, the
  separator write between them does not touch the line, and with both sets empty the
  line is unchanged.
\<close>

theorem CharacterFilter_replace_then_erase:
  "inputline (EraseChars (ReplaceWithSpace data)) =
     filter (\<lambda>c. c \<notin> set (erasechars data))
       (map (\<lambda>c. if c \<in> set (replacewithspace data) then space else c) (inputline data))
   \<and> inputline (WriteSeparator (EraseChars (ReplaceWithSpace data))) =
       inputline (EraseChars (ReplaceWithSpace data))
   \<and> LoopBody data =
       (case TokenizeLine (WriteSeparator (EraseChars (ReplaceWithSpace data))) of
          Inl f \<Rightarrow> Inl f
        | Inr (ntokens, data1) \<Rightarrow> EmitRecord ntokens data1)
   \<and> inputline (EraseChars (ReplaceWithSpace (data\<lparr>replacewithspace := [], erasechars := []\<rparr>)))
       = inputline data"
  by (simp add: inputline_filtered filter_line_def WriteSeparator_frame LoopBody_def)

subsection \<open>C10: the last token when its sentinel is removed\<close>

text \<open>
  C10: the claim is that \<^verbatim>\<open>pop_back\<close> in \<^verbatim>\<open>Tokenize\<close> is never applied to an
  empty token. With the delimiter \<^verbatim>\<open>space\<close> of \<^verbatim>\<open>ParseArguments\<close> the sentinel that
  \<^verbatim>\<open>TokenizeLine\<close> appends is itself a delimiter: the last token is the empty rest
  after it, and \<^verbatim>\<open>pop_back\<close> is applied to an empty string. The theorem evaluates
  \<^verbatim>\<open>Tokenize\<close> on the line \<^verbatim>\<open>a b\<close> with its sentinel, and the whole run on that line.
\<close>

theorem Tokenize_pop_back_on_empty_token:
  "Tokenize ((initial CHR '' '' [] [] [])\<lparr>inputline := ''a b ''\<rparr>) = Inl PopBackOnEmpty
   \<and> output_text (GenerateJson (initial CHR '' '' [] [] ''a b'')) = Inl PopBackOnEmpty"
proof
  show "Tokenize ((initial CHR '' '' [] [] [])\<lparr>inputline := ''a b ''\<rparr>) = Inl PopBackOnEmpty"
    by (simp add: Tokenize_eq initial_def MAX_TOKEN_COUNT_def)
  show "output_text (GenerateJson (initial CHR '' '' [] [] ''a b'')) = Inl PopBackOnEmpty"
    by code_simp
qed

end
